theory Spec2Isabelle
  imports Complex_Main "HOL-Library.Multiset"
begin

section \<open>The pet-feeder monitoring job (jobs/pet-feeder/main.py)\<close>

text \<open>
  A shallow embedding of \<^verbatim>\<open>run_inference_cycle\<close> and of the helpers it calls.
  What the job reads from the outside world (the clock, the weights file, the camera, the
  tracker's answers, the state file) is collected in a record \<open>env\<close>; what it does to the
  outside world (the two HTTP sinks and the state file) is returned as a list of effects,
  in program order, together with the state file it leaves behind.

  Confidences are Python floats in the source. They are modelled as exact rationals;
  concrete inputs below use dyadic values, on which float arithmetic is exact.
  Console logging is not part of the modelled effects.
\<close>

subsection \<open>Configuration\<close>

definition FRAMES_TO_PROCESS :: nat where
  "FRAMES_TO_PROCESS = 20"

definition CLASS_VAZIO :: int where
  "CLASS_VAZIO = 0"

definition CLASS_RACAO :: int where
  "CLASS_RACAO = 1"

subsection \<open>State store\<close>

text \<open>
  The state is the JSON object of \<^verbatim>\<open>monitor_state.json\<close>, with integer values.
  The file is absent, present with content that \<^verbatim>\<open>json.load\<close> rejects, or holds an object.
\<close>

type_synonym state = "string \<rightharpoonup> int"

datatype state_file = Missing | Unparsable | Stored state

definition load_state :: "state_file \<Rightarrow> state" where
  "load_state f = (case f of Stored s \<Rightarrow> s | Unparsable \<Rightarrow> Map.empty | Missing \<Rightarrow> Map.empty)"

definition save_state :: "state \<Rightarrow> state_file" where
  "save_state s = Stored s"

text \<open>\<^verbatim>\<open>state.get("last_num_empty", -1)\<close>\<close>

definition get_last_num_empty :: "state \<Rightarrow> int" where
  "get_last_num_empty s = (case s ''last_num_empty'' of None \<Rightarrow> - 1 | Some v \<Rightarrow> v)"

subsection \<open>Detections and the frame loop\<close>

text \<open>
  A detection is the dictionary \<^verbatim>\<open>{"id": .., "cls": .., "conf": ..}\<close>; the entries of
  \<^verbatim>\<open>final_objects\<close> have the same three keys.
\<close>

record detection =
  id' :: int
  cls :: int
  conf :: rat

text \<open>
  One entry per iteration of the sampling loop: \<^verbatim>\<open>cap.read()\<close> answers \<^verbatim>\<open>ret = False\<close>,
  or \<^verbatim>\<open>model.track\<close> raises, or tracking succeeds with an annotated image (a handle) and
  the detections appended for that frame (none when there are no boxes or no ids).
  A camera whose script is exhausted answers \<^verbatim>\<open>ret = False\<close>.
\<close>

datatype frame = ReadFail | TrackFault | Tracked nat "detection list"

fun frame_loop :: "nat \<Rightarrow> frame list \<Rightarrow> detection list \<Rightarrow> nat option
    \<Rightarrow> nat \<times> detection list \<times> nat option" where
  "frame_loop frames_processed [] detections last_annotated_frame =
     (frames_processed, detections, last_annotated_frame)"
| "frame_loop frames_processed (f # fs) detections last_annotated_frame =
     (if frames_processed < FRAMES_TO_PROCESS then
        (case f of
           ReadFail \<Rightarrow> (frames_processed, detections, last_annotated_frame)
         | TrackFault \<Rightarrow> (frames_processed, detections, last_annotated_frame)
         | Tracked img ds \<Rightarrow> frame_loop (Suc frames_processed) fs (detections @ ds) (Some img))
      else (frames_processed, detections, last_annotated_frame))"

subsection \<open>Aggregation by track id\<close>

text \<open>
  \<^verbatim>\<open>objects\<close> is a dictionary from track id to the lists of votes and confidences;
  Python dictionaries keep insertion order, so it is an association list in which a new
  key goes to the end.
\<close>

type_synonym objects = "(int \<times> int list \<times> rat list) list"

fun add_detection :: "objects \<Rightarrow> detection \<Rightarrow> objects" where
  "add_detection [] d = [(id' d, [cls d], [conf d])]"
| "add_detection ((oid, votes, confs) # rest) d =
     (if oid = id' d then (oid, votes @ [cls d], confs @ [conf d]) # rest
      else (oid, votes, confs) # add_detection rest d)"

definition group_by_id :: "detection list \<Rightarrow> objects" where
  "group_by_id detections = foldl add_detection [] detections"

text \<open>
  \<^verbatim>\<open>max(set(votes), key=votes.count)\<close>. Python's \<^verbatim>\<open>max\<close> keeps the first of the
  maximal elements in iteration order and raises ValueError on an empty iterable.
  CPython stores small non-negative integers in a set at the slot of their value, so a set
  of class ids (0 and 1 here) is iterated in ascending order.
\<close>

definition set_iter :: "int list \<Rightarrow> int list" where
  "set_iter votes = sort (remdups votes)"

fun max_from :: "('a \<Rightarrow> nat) \<Rightarrow> 'a \<Rightarrow> 'a list \<Rightarrow> 'a" where
  "max_from key best [] = best"
| "max_from key best (x # xs) = max_from key (if key best < key x then x else best) xs"

definition py_max :: "'a list \<Rightarrow> ('a \<Rightarrow> nat) \<Rightarrow> 'a option" where
  "py_max xs key = (case xs of [] \<Rightarrow> None | x # rest \<Rightarrow> Some (max_from key x rest))"

definition majority_vote :: "int list \<Rightarrow> int option" where
  "majority_vote votes = py_max (set_iter votes) (count_list votes)"

text \<open>
  The loop over \<^verbatim>\<open>objects.items()\<close>: it appends to \<^verbatim>\<open>final_objects\<close> and accumulates
  \<^verbatim>\<open>total_conf\<close> and \<^verbatim>\<open>count_conf\<close>. \<open>None\<close> stands for an uncaught exception
  (ValueError of \<^verbatim>\<open>max\<close>, ZeroDivisionError of the mean).
\<close>

fun aggregate :: "objects \<Rightarrow> detection list \<Rightarrow> rat \<Rightarrow> nat
    \<Rightarrow> (detection list \<times> rat \<times> nat) option" where
  "aggregate [] final_objects total_conf count_conf =
     Some (final_objects, total_conf, count_conf)"
| "aggregate ((oid, votes, confs) # rest) final_objects total_conf count_conf =
     (case majority_vote votes of
        None \<Rightarrow> None
      | Some class_id \<Rightarrow>
          if length confs = 0 then None
          else aggregate rest
                 (final_objects @
                    [\<lparr>id' = oid, cls = class_id,
                      conf = sum_list confs / of_nat (length confs)\<rparr>])
                 (total_conf + sum_list confs)
                 (count_conf + length confs))"

subsection \<open>Metrics\<close>

record metrics =
  final_objects :: "detection list"
  total_potes :: nat
  num_empty :: nat
  pct_empty :: rat
  avg_confidence :: rat
  empty_ids :: "int list"

definition analyse :: "detection list \<Rightarrow> metrics option" where
  "analyse detections =
     (case aggregate (group_by_id detections) [] 0 0 of
        None \<Rightarrow> None
      | Some (fo, total_conf, count_conf) \<Rightarrow>
          let total = length fo;
              sorted_fo = sort_key id' fo;
              empty_potes = filter (\<lambda>x. cls x = CLASS_VAZIO) sorted_fo;
              n_empty = length empty_potes
          in Some \<lparr>final_objects = sorted_fo,
                   total_potes = total,
                   num_empty = n_empty,
                   pct_empty = (if total > 0 then of_nat n_empty / of_nat total * 100 else 0),
                   avg_confidence = (if count_conf > 0 then total_conf / of_nat count_conf else 0),
                   empty_ids = map id' empty_potes\<rparr>)"

subsection \<open>Alert logic\<close>

text \<open>
  One constructor per message template that the source appends to \<^verbatim>\<open>alerts\<close>, and one
  per colour constant (0x00ff00, 0xffa500, 0xff0000).
\<close>

datatype alert = YellowWarning | RedAlert int | Recovery | HealthWarning rat

datatype color = Green | Orange | Red

text \<open>The if/elif/else chain of the threshold rules: colour, alerts, \<^verbatim>\<open>should_alert\<close>.\<close>

definition threshold_rules :: "int \<Rightarrow> int \<Rightarrow> color \<times> alert list \<times> bool" where
  "threshold_rules n last_num_empty =
     (if n = 4 then
        (if n \<noteq> last_num_empty then (Orange, [YellowWarning], True) else (Orange, [], False))
      else if n \<ge> 5 then
        (if n \<noteq> last_num_empty then (Red, [RedAlert n], True) else (Red, [], False))
      else
        (if last_num_empty \<ge> 4 then (Green, [Recovery], True) else (Green, [], False)))"

definition health_check :: "rat \<Rightarrow> color \<times> alert list \<times> bool \<Rightarrow> color \<times> alert list \<times> bool" where
  "health_check avg r =
     (case r of (c, alerts, should_alert) \<Rightarrow>
        if avg < 3 / 4 then (Red, alerts @ [HealthWarning avg], True)
        else (c, alerts, should_alert))"

definition alert_logic :: "int \<Rightarrow> int \<Rightarrow> rat \<Rightarrow> color \<times> alert list \<times> bool" where
  "alert_logic n last_num_empty avg = health_check avg (threshold_rules n last_num_empty)"

subsection \<open>Sinks and the cycle\<close>

text \<open>
  The telemetry record carries the metrics; rounding for the wire (one and three
  decimals) is not modelled. The embed carries its colour and the values its fields are
  formatted from.
\<close>

record telemetry =
  potes_total :: nat
  potes_empty :: nat
  tb_pct_empty :: rat
  model_health :: rat
  tb_empty_ids :: "int list"

record embed =
  embed_color :: color
  embed_num_empty :: nat
  embed_total :: nat
  embed_pct :: rat
  embed_ids :: "int list"
  embed_health :: rat

datatype message = CriticalModelNotFound | WarningNoStream | AlertLines "alert list"

text \<open>
  \<open>Discord\<close> is one call of \<^verbatim>\<open>send_discord\<close> (message, embed, image path),
  \<open>Thingsboard\<close> one call of \<^verbatim>\<open>send_thingsboard\<close>, \<open>SaveState\<close> one call of
  \<^verbatim>\<open>save_state\<close>. Both senders catch their own exceptions, so a failed delivery does not
  change the control flow. \<open>Uncaught\<close> is an exception leaving the function.
\<close>

datatype effect =
    Discord message "embed option" "string option"
  | Thingsboard telemetry
  | SaveState state
  | Uncaught

record env =
  current_hour :: nat
  model_exists :: bool
  model_loads :: bool
  stream_opens :: bool
  frames :: "frame list"
  state_file :: state_file

definition report :: "env \<Rightarrow> metrics \<Rightarrow> nat option \<Rightarrow> effect list \<times> state_file" where
  "report e m last_annotated_frame =
     (let state = load_state (state_file e);
          tel = \<lparr>potes_total = total_potes m, potes_empty = num_empty m,
                 tb_pct_empty = pct_empty m, model_health = avg_confidence m,
                 tb_empty_ids = empty_ids m\<rparr>;
          last_num_empty = get_last_num_empty state
      in case alert_logic (int (num_empty m)) last_num_empty (avg_confidence m) of
           (c, alerts, should_alert) \<Rightarrow>
             let emb = \<lparr>embed_color = c, embed_num_empty = num_empty m,
                        embed_total = total_potes m, embed_pct = pct_empty m,
                        embed_ids = empty_ids m, embed_health = avg_confidence m\<rparr>;
                 img_path = (case last_annotated_frame of
                               None \<Rightarrow> None | Some img \<Rightarrow> Some ''alert_snapshot.jpg'');
                 sends = (if should_alert
                          then [Discord (AlertLines alerts) (Some emb) img_path,
                                Discord (AlertLines alerts) (Some emb) img_path]
                          else []);
                 state' = state(''last_num_empty'' \<mapsto> int (num_empty m))
             in ([Thingsboard tel] @ sends @ [SaveState state'], save_state state'))"

definition run_inference_cycle :: "env \<Rightarrow> effect list \<times> state_file" where
  "run_inference_cycle e =
     (if current_hour e < 6 \<or> current_hour e \<ge> 21 then ([], state_file e)
      else if \<not> model_exists e then
        ([Discord CriticalModelNotFound None None], state_file e)
      else if \<not> model_loads e then ([], state_file e)
      else if \<not> stream_opens e then
        ([Discord WarningNoStream None None], state_file e)
      else
        (case frame_loop 0 (frames e) [] None of
           (frames_processed, detections, last_annotated_frame) \<Rightarrow>
             if frames_processed = 0 then ([], state_file e)
             else
               (case analyse detections of
                  None \<Rightarrow> ([Uncaught], state_file e)
                | Some m \<Rightarrow> report e m last_annotated_frame)))"

subsection \<open>Observations on a run\<close>

text \<open>
  What a trace shows: the alert lines that reached the notification sink, the number of
  calls of \<^verbatim>\<open>send_discord\<close>, the colours of the embeds sent, and whether
  \<^verbatim>\<open>save_state\<close> ran.
\<close>

fun alert_lines :: "effect \<Rightarrow> alert list" where
  "alert_lines (Discord (AlertLines as) emb img) = as"
| "alert_lines (Discord CriticalModelNotFound emb img) = []"
| "alert_lines (Discord WarningNoStream emb img) = []"
| "alert_lines (Thingsboard t) = []"
| "alert_lines (SaveState s) = []"
| "alert_lines Uncaught = []"

definition emitted :: "effect list \<Rightarrow> alert list" where
  "emitted tr = concat (map alert_lines tr)"

fun is_discord :: "effect \<Rightarrow> bool" where
  "is_discord (Discord msg emb img) = True"
| "is_discord (Thingsboard t) = False"
| "is_discord (SaveState s) = False"
| "is_discord Uncaught = False"

definition discord_sends :: "effect list \<Rightarrow> nat" where
  "discord_sends tr = length (filter is_discord tr)"

fun embed_colors :: "effect list \<Rightarrow> color list" where
  "embed_colors [] = []"
| "embed_colors (Discord msg (Some emb) img # tr) = embed_color emb # embed_colors tr"
| "embed_colors (x # tr) = embed_colors tr"

fun is_save_state :: "effect \<Rightarrow> bool" where
  "is_save_state (SaveState s) = True"
| "is_save_state (Discord msg emb img) = False"
| "is_save_state (Thingsboard t) = False"
| "is_save_state Uncaught = False"

definition state_written :: "effect list \<Rightarrow> bool" where
  "state_written tr = (filter is_save_state tr \<noteq> [])"

text \<open>
  The cycle gets past every early return: inside operating hours, the weights file exists
  and loads, the stream opens, and the loop processed at least one frame.
\<close>

definition reaches_analysis :: "env \<Rightarrow> bool" where
  "reaches_analysis e =
     (6 \<le> current_hour e \<and> current_hour e < 21 \<and> model_exists e \<and> model_loads e \<and>
      stream_opens e \<and> 0 < fst (frame_loop 0 (frames e) [] None))"

text \<open>The detections the frame loop collected, and the metrics of a cycle that gets that far.\<close>

definition cycle_detections :: "env \<Rightarrow> detection list" where
  "cycle_detections e = fst (snd (frame_loop 0 (frames e) [] None))"

definition cycle_metrics :: "env \<Rightarrow> metrics option" where
  "cycle_metrics e = (if reaches_analysis e then analyse (cycle_detections e) else None)"

text \<open>The value \<^verbatim>\<open>last_num_empty\<close> that a cycle reads from the state file.\<close>

definition stored_last :: "env \<Rightarrow> int" where
  "stored_last e = get_last_num_empty (load_state (state_file e))"

text \<open>Every detection carries one of the two class ids of the job.\<close>

definition known_classes :: "detection list \<Rightarrow> bool" where
  "known_classes ds = list_all (\<lambda>x. cls x = CLASS_VAZIO \<or> cls x = CLASS_RACAO) ds"

text \<open>The threshold events among the alerts: the yellow warning and the red alert.\<close>

fun is_threshold :: "alert \<Rightarrow> bool" where
  "is_threshold YellowWarning = True"
| "is_threshold (RedAlert n) = True"
| "is_threshold Recovery = False"
| "is_threshold (HealthWarning h) = False"

definition threshold_events :: "alert list \<Rightarrow> alert list" where
  "threshold_events as = filter is_threshold as"

subsection \<open>Auxiliary notions for the proofs\<close>

text \<open>
  The votes of one track, and its group: its id with the votes and the confidences of its
  detections, in arrival order. The entry of \<^verbatim>\<open>final_objects\<close> computed from a group. The metrics as a
  function of the sorted final objects and the two accumulators.
\<close>

definition votes_of :: "detection list \<Rightarrow> int \<Rightarrow> int list" where
  "votes_of ds k = map cls (filter (\<lambda>x. id' x = k) ds)"

definition track :: "detection list \<Rightarrow> int \<Rightarrow> int \<times> int list \<times> rat list" where
  "track ds k = (k, map cls (filter (\<lambda>x. id' x = k) ds), map conf (filter (\<lambda>x. id' x = k) ds))"

definition final_of :: "int \<times> int list \<times> rat list \<Rightarrow> detection" where
  "final_of g = (case g of (k, vs, cs) \<Rightarrow>
     \<lparr>id' = k, cls = the (majority_vote vs), conf = sum_list cs / of_nat (length cs)\<rparr>)"

definition metrics_of :: "detection list \<Rightarrow> rat \<Rightarrow> nat \<Rightarrow> metrics" where
  "metrics_of sorted_fo total_conf count_conf =
     \<lparr>final_objects = sorted_fo,
      total_potes = length sorted_fo,
      num_empty = length (filter (\<lambda>x. cls x = CLASS_VAZIO) sorted_fo),
      pct_empty = (if length sorted_fo > 0
                   then of_nat (length (filter (\<lambda>x. cls x = CLASS_VAZIO) sorted_fo))
                        / of_nat (length sorted_fo) * 100 else 0),
      avg_confidence = (if count_conf > 0 then total_conf / of_nat count_conf else 0),
      empty_ids = map id' (filter (\<lambda>x. cls x = CLASS_VAZIO) sorted_fo)\<rparr>"

subsection \<open>Concrete runs\<close>

text \<open>
  Inputs on which the model is evaluated below. \<open>env_day\<close> is a run at 10 o'clock with
  the weights file in place and loadable and the stream open; \<open>empties\<close> are detections
  of empty pots, one per track id, with the same confidence.
\<close>

definition env_day :: "frame list \<Rightarrow> state_file \<Rightarrow> env" where
  "env_day fs sf = \<lparr>current_hour = 10, model_exists = True, model_loads = True,
     stream_opens = True, frames = fs, state_file = sf\<rparr>"

definition empties :: "int list \<Rightarrow> rat \<Rightarrow> detection list" where
  "empties ks c = map (\<lambda>k. \<lparr>id' = k, cls = CLASS_VAZIO, conf = c\<rparr>) ks"

definition env_yellow :: env where
  "env_yellow = env_day [Tracked 0 (empties [1, 2, 3, 4] 1)] Missing"

definition env_yellow_again :: env where
  "env_yellow_again = env_yellow\<lparr>state_file := snd (run_inference_cycle env_yellow)\<rparr>"

definition env_red :: env where
  "env_red = env_day [Tracked 0 (empties [1, 2, 3, 4, 5] 1)] Unparsable"

definition env_nothing :: env where
  "env_nothing = env_day [Tracked 0 []] (Stored [''last_num_empty'' \<mapsto> 5])"

definition env_recovered :: env where
  "env_recovered = env_day [Tracked 0 [\<lparr>id' = 1, cls = CLASS_RACAO, conf = 1\<rparr>]]
     (Stored [''last_num_empty'' \<mapsto> 5])"

definition env_low_health :: env where
  "env_low_health = env_day [Tracked 0 (empties [1, 2, 3, 4] (1 / 2))] Missing"

definition env_load_fails :: env where
  "env_load_fails = (env_day [Tracked 0 (empties [1, 2, 3, 4] 1)] Missing)\<lparr>model_loads := False\<rparr>"

definition env_no_weights :: env where
  "env_no_weights = (env_day [Tracked 0 (empties [1, 2, 3, 4] 1)] Missing)\<lparr>model_exists := False\<rparr>"

definition env_night :: env where
  "env_night = (env_day [Tracked 0 (empties [1, 2, 3, 4] 1)] (Stored [''last_num_empty'' \<mapsto> 5]))
     \<lparr>current_hour := 3\<rparr>"

definition uneven_tracks :: "detection list" where
  "uneven_tracks =
     [\<lparr>id' = 1, cls = CLASS_VAZIO, conf = 1\<rparr>, \<lparr>id' = 1, cls = CLASS_VAZIO, conf = 1\<rparr>,
      \<lparr>id' = 1, cls = CLASS_VAZIO, conf = 1\<rparr>, \<lparr>id' = 2, cls = CLASS_VAZIO, conf = 1 / 2\<rparr>]"

definition tied_track :: "detection list" where
  "tied_track = [\<lparr>id' = 7, cls = CLASS_VAZIO, conf = 1\<rparr>, \<lparr>id' = 7, cls = CLASS_RACAO, conf = 1\<rparr>]"

definition two_tracks :: "detection list" where
  "two_tracks = [\<lparr>id' = 2, cls = CLASS_RACAO, conf = 1\<rparr>, \<lparr>id' = 1, cls = CLASS_VAZIO, conf = 1 / 2\<rparr>,
                 \<lparr>id' = 2, cls = CLASS_VAZIO, conf = 1 / 2\<rparr>, \<lparr>id' = 2, cls = CLASS_RACAO, conf = 3 / 4\<rparr>]"

section \<open>Properties\<close>

subsection \<open>Grouping\<close>

lemma add_detection_sum:
  "sum_list (map (\<lambda>(k, vs, cs). sum_list cs) (add_detection objs x)) =
   sum_list (map (\<lambda>(k, vs, cs). sum_list cs) objs) + conf x"
  by (induction objs x rule: add_detection.induct) auto

lemma add_detection_len:
  "sum_list (map (\<lambda>(k, vs, cs). length cs) (add_detection objs x)) =
   sum_list (map (\<lambda>(k, vs, cs). length cs) objs) + 1"
  by (induction objs x rule: add_detection.induct) auto

lemma group_by_id_Nil: "group_by_id [] = []"
  by (simp add: group_by_id_def)

lemma group_by_id_snoc: "group_by_id (ds @ [x]) = add_detection (group_by_id ds) x"
  by (simp add: group_by_id_def)

lemma group_sum:
  "sum_list (map (\<lambda>(k, vs, cs). sum_list cs) (group_by_id ds)) = sum_list (map conf ds)"
  by (induction ds rule: rev_induct)
     (simp_all add: group_by_id_Nil group_by_id_snoc add_detection_sum)

lemma group_len:
  "sum_list (map (\<lambda>(k, vs, cs). length cs) (group_by_id ds)) = length ds"
  by (induction ds rule: rev_induct)
     (simp_all add: group_by_id_Nil group_by_id_snoc add_detection_len)

lemma track_snoc_other: "k \<noteq> id' x \<Longrightarrow> track (ds @ [x]) k = track ds k"
  by (simp add: track_def)

lemma map_track_snoc_other: "id' x \<notin> set ks \<Longrightarrow> map (track (ds @ [x])) ks = map (track ds) ks"
  by (induction ks) (auto simp: track_snoc_other)

lemma add_detection_track:
  assumes "distinct ks" and "id' x \<in> set ks \<or> id' x \<notin> id' ` set ds"
  shows "add_detection (map (track ds) ks) x =
         (if id' x \<in> set ks then map (track (ds @ [x])) ks
          else map (track (ds @ [x])) (ks @ [id' x]))"
  using assms
proof (induction ks)
  case Nil
  then have "filter (\<lambda>y. id' y = id' x) ds = []"
    by (simp add: filter_empty_conv) (metis imageI)
  then show ?case by (simp add: track_def)
next
  case (Cons k ks)
  show ?case
  proof (cases "k = id' x")
    case True
    with Cons.prems have "id' x \<notin> set ks" by simp
    then have "map (track (ds @ [x])) ks = map (track ds) ks"
      by (rule map_track_snoc_other)
    with True show ?thesis by (simp add: track_def)
  next
    case False
    with Cons.prems have "distinct ks" "id' x \<in> set ks \<or> id' x \<notin> id' ` set ds"
      by auto
    from Cons.IH[OF this] False show ?thesis
      by (simp add: track_def)
  qed
qed

lemma group_by_id_tracks:
  "\<exists>ks. distinct ks \<and> set ks = id' ` set ds \<and> group_by_id ds = map (track ds) ks"
proof (induction ds rule: rev_induct)
  case Nil
  show ?case by (simp add: group_by_id_Nil)
next
  case (snoc x ds)
  then obtain ks where ks: "distinct ks" "set ks = id' ` set ds"
    "group_by_id ds = map (track ds) ks" by blast
  have pre: "id' x \<in> set ks \<or> id' x \<notin> id' ` set ds" using ks(2) by blast
  show ?case
  proof (cases "id' x \<in> set ks")
    case True
    have "group_by_id (ds @ [x]) = map (track (ds @ [x])) ks"
      using add_detection_track[OF ks(1) pre] True by (simp add: group_by_id_snoc ks(3))
    moreover have "set ks = id' ` set (ds @ [x])" using True ks(2) by auto
    ultimately show ?thesis using ks(1) by blast
  next
    case False
    have "group_by_id (ds @ [x]) = map (track (ds @ [x])) (ks @ [id' x])"
      using add_detection_track[OF ks(1) pre] False by (simp add: group_by_id_snoc ks(3))
    moreover have "set (ks @ [id' x]) = id' ` set (ds @ [x])" using ks(2) by auto
    moreover have "distinct (ks @ [id' x])" using ks(1) False by simp
    ultimately show ?thesis by blast
  qed
qed

subsection \<open>Majority vote\<close>

lemma set_set_iter: "set (set_iter vs) = set vs"
  by (simp add: set_iter_def)

lemma set_iter_Nil_iff: "set_iter vs = [] \<longleftrightarrow> vs = []"
  using set_set_iter[of vs] by (metis set_empty)

lemma majority_vote_Some: "vs \<noteq> [] \<Longrightarrow> \<exists>c. majority_vote vs = Some c"
  by (cases "set_iter vs") (simp_all add: majority_vote_def py_max_def set_iter_Nil_iff)

lemma set_iter_mset: "mset vs = mset ws \<Longrightarrow> set_iter vs = set_iter ws"
proof -
  assume "mset vs = mset ws"
  then have "set vs = set ws" by (rule mset_eq_setD)
  then have "set (remdups vs) = set (remdups ws)" by simp
  then show ?thesis
    unfolding set_iter_def
    by (intro sorted_distinct_set_unique) simp_all
qed

lemma count_list_mset: "mset vs = mset ws \<Longrightarrow> count_list vs = count_list ws"
  by (metis count_mset ext)

lemma majority_vote_mset: "mset vs = mset ws \<Longrightarrow> majority_vote vs = majority_vote ws"
  by (simp add: majority_vote_def set_iter_mset[of vs ws] count_list_mset[of vs ws])

lemma sum_list_mset: "mset (xs :: rat list) = mset ys \<Longrightarrow> sum_list xs = sum_list ys"
  by (metis sum_mset_sum_list)

lemma length_mset: "mset xs = mset ys \<Longrightarrow> length xs = length ys"
  by (metis size_mset)

lemma final_of_track_mset:
  assumes "mset ds = mset ds'"
  shows "final_of (track ds k) = final_of (track ds' k)"
proof -
  let ?f = "\<lambda>zs. filter (\<lambda>x. id' x = k) zs"
  have m: "mset (?f ds) = mset (?f ds')" using assms by (metis mset_filter)
  then have v: "mset (map cls (?f ds)) = mset (map cls (?f ds'))"
    and c: "mset (map conf (?f ds)) = mset (map conf (?f ds'))"
    by (metis mset_map)+
  show ?thesis
    using majority_vote_mset[OF v] sum_list_mset[OF c] length_mset[OF c]
    by (simp add: final_of_def track_def)
qed

lemma id_final_of_track: "id' (final_of (track ds k)) = k"
  by (simp add: final_of_def track_def)

subsection \<open>The loop over the groups\<close>

lemma aggregate_char:
  assumes "\<forall>g \<in> set objs. fst (snd g) \<noteq> [] \<and> snd (snd g) \<noteq> []"
  shows "aggregate objs fo tc cc =
         Some (fo @ map final_of objs,
               tc + sum_list (map (\<lambda>(k, vs, cs). sum_list cs) objs),
               cc + sum_list (map (\<lambda>(k, vs, cs). length cs) objs))"
  using assms
proof (induction objs fo tc cc rule: aggregate.induct)
  case (1 fo tc cc)
  show ?case by simp
next
  case (2 oid votes confs rest fo tc cc)
  from "2.prems" have ne: "votes \<noteq> []" "confs \<noteq> []" by auto
  from majority_vote_Some[OF ne(1)] obtain c where c: "majority_vote votes = Some c" ..
  from "2.prems" have rest: "\<forall>g \<in> set rest. fst (snd g) \<noteq> [] \<and> snd (snd g) \<noteq> []" by simp
  have "length confs \<noteq> 0" using ne(2) by simp
  from "2.IH"[OF c this rest] c ne(2) show ?case
    by (simp add: final_of_def add.assoc)
qed

lemma track_nonempty:
  assumes "k \<in> id' ` set ds"
  shows "fst (snd (track ds k)) \<noteq> [] \<and> snd (snd (track ds k)) \<noteq> []"
proof -
  from assms have "filter (\<lambda>x. id' x = k) ds \<noteq> []"
    by (auto simp: filter_empty_conv)
  then show ?thesis by (simp add: track_def)
qed

lemma group_nonempty: "\<forall>g \<in> set (group_by_id ds). fst (snd g) \<noteq> [] \<and> snd (snd g) \<noteq> []"
proof -
  obtain ks where ks: "set ks = id' ` set ds" "group_by_id ds = map (track ds) ks"
    using group_by_id_tracks[of ds] by blast
  show ?thesis using ks track_nonempty[of _ ds] by auto
qed

lemma aggregate_group:
  "aggregate (group_by_id ds) [] 0 0 =
     Some (map final_of (group_by_id ds), sum_list (map conf ds), length ds)"
  using aggregate_char[OF group_nonempty, of ds "[]" 0 0]
  by (simp add: group_sum group_len)

lemma analyse_char:
  "analyse ds = Some (metrics_of (sort_key id' (map final_of (group_by_id ds)))
                        (sum_list (map conf ds)) (length ds))"
  by (simp add: analyse_def aggregate_group metrics_of_def Let_def)

subsection \<open>Order independence\<close>

lemma sorted_finals_mset:
  assumes "mset ds = mset ds'"
  shows "sort_key id' (map final_of (group_by_id ds)) =
         sort_key id' (map final_of (group_by_id ds'))"
proof -
  obtain ks where ks: "distinct ks" "set ks = id' ` set ds"
    "group_by_id ds = map (track ds) ks"
    using group_by_id_tracks[of ds] by blast
  obtain ks' where ks': "distinct ks'" "set ks' = id' ` set ds'"
    "group_by_id ds' = map (track ds') ks'"
    using group_by_id_tracks[of ds'] by blast
  let ?g = "\<lambda>k. final_of (track ds k)"
  have same: "final_of (track ds' k) = final_of (track ds k)" for k
    using final_of_track_mset[OF assms, of k] by simp
  have "set ds = set ds'" using assms by (rule mset_eq_setD)
  then have "set ks = set ks'" using ks(2) ks'(2) by simp
  then have mk: "mset ks = mset ks'"
    using ks(1) ks'(1) by (simp add: set_eq_iff_mset_eq_distinct)
  have l: "map final_of (group_by_id ds) = map ?g ks" by (simp add: ks(3))
  have r: "map final_of (group_by_id ds') = map ?g ks'" by (simp add: ks'(3) same)
  have "map id' (map ?g ks) = ks" by (simp add: id_final_of_track comp_def)
  then have "distinct (map id' (map ?g ks))" using ks(1) by simp
  then have inj: "inj_on id' (set (map ?g ks))" by (simp only: distinct_map)
  have "mset (map ?g ks) = mset (map ?g ks')" using mk by (metis mset_map)
  from sort_key_eq_sort_key[OF this inj] show ?thesis by (simp only: l r)
qed

lemma analyse_mset: "mset ds = mset ds' \<Longrightarrow> analyse ds = analyse ds'"
  using sorted_finals_mset[of ds ds'] sum_list_mset[of "map conf ds" "map conf ds'"]
    length_mset[of ds ds']
  by (simp add: analyse_char)

lemma analyse_total: "\<exists>m. analyse ds = Some m"
  by (simp add: analyse_char)

lemma group_by_id_empty_iff: "group_by_id ds = [] \<longleftrightarrow> ds = []"
  using group_len[of ds] by (cases ds) (auto simp: group_by_id_Nil)

subsection \<open>The alert logic\<close>

lemma should_alert_iff: "snd (snd (alert_logic n l a)) \<longleftrightarrow> fst (snd (alert_logic n l a)) \<noteq> []"
  by (simp add: alert_logic_def health_check_def threshold_rules_def)

lemma alerts_yellow:
  "YellowWarning \<in> set (fst (snd (alert_logic n l a))) \<longleftrightarrow> n = 4 \<and> n \<noteq> l"
  by (simp add: alert_logic_def health_check_def threshold_rules_def)

lemma alerts_red:
  "RedAlert k \<in> set (fst (snd (alert_logic n l a))) \<longleftrightarrow> 5 \<le> n \<and> n \<noteq> l \<and> k = n"
  by (auto simp add: alert_logic_def health_check_def threshold_rules_def)

lemma alerts_recovery:
  "Recovery \<in> set (fst (snd (alert_logic n l a))) \<longleftrightarrow> n < 4 \<and> 4 \<le> l"
  by (auto simp add: alert_logic_def health_check_def threshold_rules_def)

lemma alerts_health:
  "HealthWarning h \<in> set (fst (snd (alert_logic n l a))) \<longleftrightarrow> a < 3 / 4 \<and> h = a"
  by (auto simp add: alert_logic_def health_check_def threshold_rules_def)

lemma alerts_low_health:
  "a < 3 / 4 \<Longrightarrow> alert_logic n l a =
     (Red, fst (snd (threshold_rules n l)) @ [HealthWarning a], True)"
  by (simp add: alert_logic_def health_check_def split: prod.splits)

subsection \<open>The reporting part of a cycle\<close>

lemma report_char:
  "report e m f =
     (let c = fst (alert_logic (int (num_empty m)) (stored_last e) (avg_confidence m));
          as = fst (snd (alert_logic (int (num_empty m)) (stored_last e) (avg_confidence m)));
          emb = \<lparr>embed_color = c, embed_num_empty = num_empty m,
                 embed_total = total_potes m, embed_pct = pct_empty m,
                 embed_ids = empty_ids m, embed_health = avg_confidence m\<rparr>;
          img = (case f of None \<Rightarrow> None | Some i \<Rightarrow> Some ''alert_snapshot.jpg'');
          st = (load_state (state_file e))(''last_num_empty'' \<mapsto> int (num_empty m))
      in ([Thingsboard \<lparr>potes_total = total_potes m, potes_empty = num_empty m,
                 tb_pct_empty = pct_empty m, model_health = avg_confidence m,
                 tb_empty_ids = empty_ids m\<rparr>] @
          (if as \<noteq> [] then [Discord (AlertLines as) (Some emb) img,
                              Discord (AlertLines as) (Some emb) img] else []) @
          [SaveState st], Stored st))"
proof -
  obtain c as sa where al:
    "alert_logic (int (num_empty m)) (stored_last e) (avg_confidence m) = (c, as, sa)"
    by (cases "alert_logic (int (num_empty m)) (stored_last e) (avg_confidence m)") auto
  with should_alert_iff[of "int (num_empty m)" "stored_last e" "avg_confidence m"]
  have sa: "sa \<longleftrightarrow> as \<noteq> []" by simp
  show ?thesis
    using al sa by (simp add: report_def stored_last_def save_state_def Let_def)
qed

lemma report_emitted:
  "set (emitted (fst (report e m f))) =
   set (fst (snd (alert_logic (int (num_empty m)) (stored_last e) (avg_confidence m))))"
  by (simp add: report_char emitted_def Let_def)

lemma report_sends:
  "discord_sends (fst (report e m f)) =
   (if fst (snd (alert_logic (int (num_empty m)) (stored_last e) (avg_confidence m))) = []
    then 0 else 2)"
  by (simp add: report_char discord_sends_def Let_def)

lemma report_colors:
  "embed_colors (fst (report e m f)) =
   (if fst (snd (alert_logic (int (num_empty m)) (stored_last e) (avg_confidence m))) = []
    then [] else
      [fst (alert_logic (int (num_empty m)) (stored_last e) (avg_confidence m)),
       fst (alert_logic (int (num_empty m)) (stored_last e) (avg_confidence m))])"
  by (simp add: report_char Let_def)

lemma report_written: "state_written (fst (report e m f))"
  by (simp add: report_char state_written_def Let_def)

lemma report_state:
  "snd (report e m f) = Stored ((load_state (state_file e))(''last_num_empty'' \<mapsto> int (num_empty m)))"
  by (simp add: report_char Let_def)

subsection \<open>The cycle\<close>

lemma run_reaches:
  assumes "cycle_metrics e = Some m"
  shows "run_inference_cycle e = report e m (snd (snd (frame_loop 0 (frames e) [] None)))"
  using assms
  by (auto simp add: cycle_metrics_def reaches_analysis_def cycle_detections_def
      run_inference_cycle_def split: if_splits prod.splits)

lemma run_aborts:
  assumes "\<not> reaches_analysis e"
  shows "snd (run_inference_cycle e) = state_file e"
    and "\<not> state_written (fst (run_inference_cycle e))"
    and "emitted (fst (run_inference_cycle e)) = []"
  using assms
  by (auto simp add: reaches_analysis_def run_inference_cycle_def state_written_def emitted_def
      split: if_splits prod.splits)

lemma reaches_metrics: "reaches_analysis e \<Longrightarrow> \<exists>m. cycle_metrics e = Some m"
  by (simp add: cycle_metrics_def analyse_total)

lemma stored_last_after:
  "cycle_metrics e = Some m \<Longrightarrow> state_file e2 = snd (run_inference_cycle e) \<Longrightarrow>
   stored_last e2 = int (num_empty m)"
  by (simp add: run_reaches report_state stored_last_def load_state_def get_last_num_empty_def)

lemma cycle_emitted:
  "cycle_metrics e = Some m \<Longrightarrow>
   set (emitted (fst (run_inference_cycle e))) =
   set (fst (snd (alert_logic (int (num_empty m)) (stored_last e) (avg_confidence m))))"
  by (simp add: run_reaches report_emitted)

lemma alerting_cycle_sends_twice:
  "cycle_metrics e = Some m \<Longrightarrow>
   discord_sends (fst (run_inference_cycle e)) =
   (if fst (snd (alert_logic (int (num_empty m)) (stored_last e) (avg_confidence m))) = []
    then 0 else 2)"
  by (simp add: run_reaches report_sends)

lemma cycle_metrics_state_file [simp]:
  "cycle_metrics (e\<lparr>state_file := sf\<rparr>) = cycle_metrics e"
  by (simp add: cycle_metrics_def reaches_analysis_def cycle_detections_def)

subsection \<open>The vote of one track\<close>

lemma tie_vote:
  assumes "set votes \<subseteq> {CLASS_VAZIO, CLASS_RACAO}"
    and "votes \<noteq> []"
    and "count_list votes CLASS_VAZIO = count_list votes CLASS_RACAO"
  shows "majority_vote votes = Some CLASS_VAZIO"
proof -
  have "CLASS_VAZIO \<in> set votes"
  proof (rule ccontr)
    assume "CLASS_VAZIO \<notin> set votes"
    then have "count_list votes CLASS_RACAO = 0" using assms(3) by (simp add: count_list_0_iff)
    then have "CLASS_RACAO \<notin> set votes" by (simp add: count_list_0_iff)
    with \<open>CLASS_VAZIO \<notin> set votes\<close> assms(1) assms(2) show False
      by (cases votes) auto
  qed
  moreover from this have "CLASS_RACAO \<in> set votes"
    using assms(3) by (metis count_list_0_iff)
  ultimately have "set votes = {CLASS_VAZIO, CLASS_RACAO}" using assms(1) by auto
  then have "set (remdups votes) = set [CLASS_VAZIO, CLASS_RACAO]" by simp
  moreover have "sorted [CLASS_VAZIO, CLASS_RACAO]" "distinct [CLASS_VAZIO, CLASS_RACAO]"
    by (simp_all add: CLASS_VAZIO_def CLASS_RACAO_def)
  ultimately have "set_iter votes = [CLASS_VAZIO, CLASS_RACAO]"
    unfolding set_iter_def by (intro sorted_distinct_set_unique) simp_all
  then show ?thesis
    using assms(3) by (simp add: majority_vote_def py_max_def)
qed

lemma filter_map_distinct:
  "distinct ks \<Longrightarrow> k \<in> set ks \<Longrightarrow> (\<And>j. f (g j) = j) \<Longrightarrow>
   filter (\<lambda>x. f x = k) (map g ks) = [g k]"
proof (induction ks)
  case Nil
  then show ?case by simp
next
  case (Cons a ks)
  show ?case
  proof (cases "a = k")
    case True
    with Cons.prems have "k \<notin> set ks" by simp
    then have "filter (\<lambda>x. f x = k) (map g ks) = []"
      using Cons.prems(3) by (auto simp: filter_empty_conv)
    with True Cons.prems(3) show ?thesis by simp
  next
    case False
    with Cons.prems have "distinct ks" "k \<in> set ks" by auto
    from Cons.IH[OF this Cons.prems(3)] False Cons.prems(3) show ?thesis by simp
  qed
qed

lemma final_object_of_track:
  assumes "k \<in> id' ` set ds" and "analyse ds = Some m"
  shows "filter (\<lambda>x. id' x = k) (final_objects m) = [final_of (track ds k)]"
proof -
  obtain ks where ks: "distinct ks" "set ks = id' ` set ds"
    "group_by_id ds = map (track ds) ks"
    using group_by_id_tracks[of ds] by blast
  from assms(2) have "final_objects m = sort_key id' (map final_of (group_by_id ds))"
    by (auto simp add: analyse_char metrics_of_def)
  then have "filter (\<lambda>x. id' x = k) (final_objects m) =
             filter (\<lambda>x. id' x = k) (map (\<lambda>j. final_of (track ds j)) ks)"
    by (simp add: sort_key_stable ks(3) comp_def)
  also have "\<dots> = [final_of (track ds k)]"
    using ks(1) assms(1) ks(2) by (intro filter_map_distinct) (simp_all add: id_final_of_track)
  finally show ?thesis .
qed

section \<open>The claims\<close>

text \<open>
  C1. A completed cycle with a non-empty alert list sends the notification exactly once.
  The source calls \<^verbatim>\<open>send_discord\<close> twice in a row with the same arguments: on the
  cycle \<open>env_yellow\<close> (four empty pots, no stored state) the alert list is not empty
  and the notification sink receives two messages.
\<close>

theorem C1_notification_sent_twice:
  "emitted (fst (run_inference_cycle env_yellow)) \<noteq> [] \<and>
   discord_sends (fst (run_inference_cycle env_yellow)) = 2"
  by code_simp

text \<open>
  C2 as stated: the state is written only when the cycle has at least one aggregated
  object. It fails on a cycle whose frames carry no detection: \<open>env_nothing\<close> has
  \<open>total_potes = 0\<close>, and the stored count goes from 5 to 0.
\<close>

theorem C2_counterexample:
  "map_option total_potes (cycle_metrics env_nothing) = Some 0 \<and>
   state_written (fst (run_inference_cycle env_nothing)) \<and>
   stored_last env_nothing = 5 \<and>
   get_last_num_empty (load_state (snd (run_inference_cycle env_nothing))) = 0"
  by code_simp

text \<open>
  C2, amended: the state file is written if and only if the cycle gets past every early
  return (operating hours, weights file present and loadable, stream open, at least one
  frame processed), whatever the number of aggregated objects; it then holds the old
  state with \<open>last_num_empty\<close> set to the number of empty pots. On every abort path the
  file is left as it was.
\<close>

theorem C2_state_written_iff_reaches_analysis:
  "(state_written (fst (run_inference_cycle e)) \<longleftrightarrow> reaches_analysis e) \<and>
   (\<not> reaches_analysis e \<longrightarrow> snd (run_inference_cycle e) = state_file e) \<and>
   (reaches_analysis e \<longrightarrow>
      (\<exists>m. cycle_metrics e = Some m \<and>
           snd (run_inference_cycle e) =
             Stored ((load_state (state_file e))(''last_num_empty'' \<mapsto> int (num_empty m)))))"
proof (cases "reaches_analysis e")
  case True
  then obtain m where m: "cycle_metrics e = Some m" using reaches_metrics by blast
  then show ?thesis
    using True by (simp add: run_reaches report_written report_state)
next
  case False
  then show ?thesis using run_aborts[OF False] by simp
qed

theorem C2_witness:
  "\<not> reaches_analysis env_night \<and>
   snd (run_inference_cycle env_night) = state_file env_night \<and>
   \<not> state_written (fst (run_inference_cycle env_night)) \<and>
   reaches_analysis env_nothing \<and>
   state_written (fst (run_inference_cycle env_nothing))"
proof -
  have n: "\<not> reaches_analysis env_night" by code_simp
  have d: "reaches_analysis env_nothing" by code_simp
  show ?thesis
    using n d C2_state_written_iff_reaches_analysis[of env_night]
      C2_state_written_iff_reaches_analysis[of env_nothing]
    by simp
qed

text \<open>
  C3 as stated: \<open>avg_confidence\<close> is the mean of the per-object confidences. It fails
  when tracks have different numbers of detections: for one track seen three times with
  confidence 1 and one track seen once with confidence 1/2 the code yields 7/8, the mean
  over the two objects is 3/4.
\<close>

theorem C3_counterexample:
  "map_option avg_confidence (analyse uneven_tracks) = Some (7 / 8) \<and>
   map_option (\<lambda>m. sum_list (map conf (final_objects m)) / of_nat (total_potes m))
     (analyse uneven_tracks) = Some (3 / 4)"
  by code_simp

text \<open>
  C3, amended: \<open>avg_confidence\<close> is the arithmetic mean of the confidences of all
  frame-level detections of the cycle, each detection weighted equally (so a track counts
  as often as it was detected); it is 0 when there is no detection, which is exactly when
  \<open>total_potes\<close> is 0.
\<close>

theorem C3_avg_confidence_over_detections:
  "map_option avg_confidence (analyse ds) =
     Some (if ds = [] then 0 else sum_list (map conf ds) / of_nat (length ds)) \<and>
   (map_option total_potes (analyse ds) = Some 0 \<longleftrightarrow> ds = [])"
  by (simp add: analyse_char metrics_of_def group_by_id_empty_iff)

text \<open>
  C4 as stated: a tie is resolved in favour of the class of the track's most recent
  detection. It fails for a track seen twice, first as empty and then as filled: the two
  classes are tied, the most recent detection is filled, and the code classifies the
  track as empty.
\<close>

theorem C4_counterexample:
  "count_list (votes_of tied_track 7) CLASS_VAZIO = count_list (votes_of tied_track 7) CLASS_RACAO \<and>
   cls (last tied_track) = CLASS_RACAO \<and>
   majority_vote (votes_of tied_track 7) = Some CLASS_VAZIO \<and>
   map_option (map cls \<circ> final_objects) (analyse tied_track) = Some [CLASS_VAZIO]"
  by code_simp

text \<open>
  C4, amended: when the two classes of a track are tied for the vote lead, the vote is
  the lowest-valued class id (\<open>CLASS_VAZIO\<close>), whatever the class of the most recent
  detection, and the track's final object carries that class; the result is a function of
  the detections, so identical input gives the same classification.
\<close>

theorem C4_tie_resolved_to_lowest_class:
  assumes "known_classes ds" and "k \<in> id' ` set ds"
    and "count_list (votes_of ds k) CLASS_VAZIO = count_list (votes_of ds k) CLASS_RACAO"
  shows "majority_vote (votes_of ds k) = Some CLASS_VAZIO \<and>
         (\<exists>m. analyse ds = Some m \<and>
              map cls (filter (\<lambda>x. id' x = k) (final_objects m)) = [CLASS_VAZIO])"
proof -
  have sub: "set (votes_of ds k) \<subseteq> {CLASS_VAZIO, CLASS_RACAO}"
    using assms(1) by (auto simp add: known_classes_def votes_of_def list_all_iff)
  have ne: "votes_of ds k \<noteq> []"
    using track_nonempty[OF assms(2)] by (simp add: track_def votes_of_def)
  have v: "majority_vote (votes_of ds k) = Some CLASS_VAZIO"
    using sub ne assms(3) by (rule tie_vote)
  obtain m where m: "analyse ds = Some m" using analyse_total by blast
  have "cls (final_of (track ds k)) = CLASS_VAZIO"
    using v by (simp add: final_of_def track_def votes_of_def)
  then have "map cls (filter (\<lambda>x. id' x = k) (final_objects m)) = [CLASS_VAZIO]"
    by (simp add: final_object_of_track[OF assms(2) m])
  with v m show ?thesis by simp
qed

theorem C4_witness:
  "known_classes tied_track \<and> 7 \<in> id' ` set tied_track \<and>
   count_list (votes_of tied_track 7) CLASS_VAZIO = count_list (votes_of tied_track 7) CLASS_RACAO \<and>
   majority_vote (votes_of tied_track 7) = Some CLASS_VAZIO \<and>
   map_option (map cls \<circ> final_objects) (analyse tied_track) = Some [CLASS_VAZIO]"
proof -
  have k: "known_classes tied_track" by code_simp
  have i: "7 \<in> id' ` set tied_track" by (simp add: tied_track_def)
  have t: "count_list (votes_of tied_track 7) CLASS_VAZIO = count_list (votes_of tied_track 7) CLASS_RACAO"
    by code_simp
  have a: "map_option (map cls \<circ> final_objects) (analyse tied_track) = Some [CLASS_VAZIO]"
    by code_simp
  from C4_tie_resolved_to_lowest_class[OF k i t] k i t a show ?thesis by simp
qed

text \<open>
  C5. Two detection sequences that are permutations of each other, with detections of
  the two classes of the job, give the same aggregation: the same final objects (per-track
  majority vote and mean confidence), and with them the same metrics. Both analyses
  return a result. The means are those of exact arithmetic.
\<close>

theorem C5_aggregation_order_independent:
  assumes "mset ds = mset ds'" and "known_classes ds"
  shows "\<exists>m. analyse ds = Some m \<and> analyse ds' = Some m"
  using analyse_mset[OF assms(1)] analyse_total[of ds] by auto

theorem C5_witness:
  "mset two_tracks = mset (rev two_tracks) \<and> known_classes two_tracks \<and>
   analyse (rev two_tracks) = analyse two_tracks \<and>
   map_option (map cls \<circ> final_objects) (analyse two_tracks) = Some [CLASS_VAZIO, CLASS_RACAO]"
proof -
  have p: "mset two_tracks = mset (rev two_tracks)" by simp
  have k: "known_classes two_tracks" by code_simp
  have v: "map_option (map cls \<circ> final_objects) (analyse two_tracks) = Some [CLASS_VAZIO, CLASS_RACAO]"
    by code_simp
  from C5_aggregation_order_independent[OF p k] p k v show ?thesis by auto
qed

text \<open>
  C6. Threshold events are edge-triggered. On a cycle that reaches the alert logic with
  four empty pots, the yellow warning is emitted exactly when the stored count is not 4;
  with five or more, the red alert (carrying the count) is emitted exactly when the stored
  count differs from the count. A cycle that follows a cycle with the same count, four or
  more, on the state that cycle left behind, emits no threshold event.
\<close>

theorem C6_threshold_events_edge_triggered:
  assumes "cycle_metrics e = Some m"
  shows "(num_empty m = 4 \<longrightarrow>
            (YellowWarning \<in> set (emitted (fst (run_inference_cycle e))) \<longleftrightarrow> stored_last e \<noteq> 4)) \<and>
         (5 \<le> num_empty m \<longrightarrow>
            (RedAlert (int (num_empty m)) \<in> set (emitted (fst (run_inference_cycle e))) \<longleftrightarrow>
             stored_last e \<noteq> int (num_empty m))) \<and>
         (\<forall>e2 m2. cycle_metrics e2 = Some m2 \<and> state_file e2 = snd (run_inference_cycle e) \<and>
                   num_empty m2 = num_empty m \<and> 4 \<le> num_empty m \<longrightarrow>
                   threshold_events (emitted (fst (run_inference_cycle e2))) = [])"
proof (intro conjI allI impI)
  assume "num_empty m = 4"
  then show "YellowWarning \<in> set (emitted (fst (run_inference_cycle e))) \<longleftrightarrow> stored_last e \<noteq> 4"
    by (auto simp add: cycle_emitted[OF assms] alerts_yellow)
next
  assume "5 \<le> num_empty m"
  then show "RedAlert (int (num_empty m)) \<in> set (emitted (fst (run_inference_cycle e))) \<longleftrightarrow>
             stored_last e \<noteq> int (num_empty m)"
    by (auto simp add: cycle_emitted[OF assms] alerts_red)
next
  fix e2 m2
  assume h: "cycle_metrics e2 = Some m2 \<and> state_file e2 = snd (run_inference_cycle e) \<and>
             num_empty m2 = num_empty m \<and> 4 \<le> num_empty m"
  then have last: "stored_last e2 = int (num_empty m2)"
    using stored_last_after[OF assms, of e2] by simp
  from h have em: "set (emitted (fst (run_inference_cycle e2))) =
      set (fst (snd (alert_logic (int (num_empty m2)) (stored_last e2) (avg_confidence m2))))"
    by (simp add: cycle_emitted)
  have "\<not> is_threshold a" if a: "a \<in> set (emitted (fst (run_inference_cycle e2)))" for a
  proof (cases a)
    case YellowWarning
    with a em last show ?thesis by (simp add: alerts_yellow)
  next
    case (RedAlert k)
    with a em last show ?thesis by (simp add: alerts_red)
  next
    case Recovery
    then show ?thesis by simp
  next
    case (HealthWarning x)
    then show ?thesis by simp
  qed
  then show "threshold_events (emitted (fst (run_inference_cycle e2))) = []"
    by (simp add: threshold_events_def filter_empty_conv)
qed

theorem C6_witness:
  "map_option num_empty (cycle_metrics env_yellow) = Some 4 \<and>
   stored_last env_yellow \<noteq> 4 \<and>
   YellowWarning \<in> set (emitted (fst (run_inference_cycle env_yellow))) \<and>
   state_file env_yellow_again = snd (run_inference_cycle env_yellow) \<and>
   threshold_events (emitted (fst (run_inference_cycle env_yellow_again))) = [] \<and>
   map_option num_empty (cycle_metrics env_red) = Some 5 \<and>
   stored_last env_red \<noteq> 5 \<and>
   RedAlert 5 \<in> set (emitted (fst (run_inference_cycle env_red)))"
proof -
  obtain m where m: "cycle_metrics env_yellow = Some m"
    by (cases "cycle_metrics env_yellow") (simp_all, code_simp)
  have n: "map_option num_empty (cycle_metrics env_yellow) = Some 4" by code_simp
  with m have n4: "num_empty m = 4" by simp
  have l: "stored_last env_yellow \<noteq> 4" by code_simp
  have s: "state_file env_yellow_again = snd (run_inference_cycle env_yellow)"
    by (simp add: env_yellow_again_def)
  have m2: "cycle_metrics env_yellow_again = Some m"
    by (simp add: env_yellow_again_def m)
  obtain r where r: "cycle_metrics env_red = Some r"
    by (cases "cycle_metrics env_red") (simp_all, code_simp)
  have nr: "map_option num_empty (cycle_metrics env_red) = Some 5" by code_simp
  with r have n5: "num_empty r = 5" by simp
  have lr: "stored_last env_red \<noteq> 5" by code_simp
  from C6_threshold_events_edge_triggered[OF m] n4 l m2 s
  have "YellowWarning \<in> set (emitted (fst (run_inference_cycle env_yellow)))"
    and "threshold_events (emitted (fst (run_inference_cycle env_yellow_again))) = []"
    by auto
  moreover from C6_threshold_events_edge_triggered[OF r] n5 lr
  have "RedAlert 5 \<in> set (emitted (fst (run_inference_cycle env_red)))" by simp
  ultimately show ?thesis using n l s nr lr by simp
qed

text \<open>
  C7. On a cycle that reaches the alert logic, the recovery event is emitted if and only
  if the stored count is at least 4 and the current count of empty pots is below 4.
\<close>

theorem C7_recovery_iff:
  assumes "cycle_metrics e = Some m"
  shows "Recovery \<in> set (emitted (fst (run_inference_cycle e))) \<longleftrightarrow>
         4 \<le> stored_last e \<and> num_empty m < 4"
  by (auto simp add: cycle_emitted[OF assms] alerts_recovery)

theorem C7_witness:
  "map_option num_empty (cycle_metrics env_recovered) = Some 0 \<and>
   stored_last env_recovered = 5 \<and>
   Recovery \<in> set (emitted (fst (run_inference_cycle env_recovered))) \<and>
   Recovery \<notin> set (emitted (fst (run_inference_cycle env_yellow)))"
proof -
  obtain m where m: "cycle_metrics env_recovered = Some m"
    by (cases "cycle_metrics env_recovered") (simp_all, code_simp)
  have n: "map_option num_empty (cycle_metrics env_recovered) = Some 0" by code_simp
  have l: "stored_last env_recovered = 5" by code_simp
  obtain y where y: "cycle_metrics env_yellow = Some y"
    by (cases "cycle_metrics env_yellow") (simp_all, code_simp)
  have ly: "stored_last env_yellow = - 1" by code_simp
  from C7_recovery_iff[OF m] C7_recovery_iff[OF y] m n l ly show ?thesis by simp
qed

text \<open>
  C8. On a cycle that reaches the alert logic with an average confidence below 0.75, the
  health warning (carrying that average) is emitted, whatever the stored count, and every
  embed sent is red. The health warning is added to the events of the threshold rules,
  which are emitted as they would be without it.
\<close>

theorem C8_health_warning:
  assumes "cycle_metrics e = Some m" and "avg_confidence m < 3 / 4"
  shows "HealthWarning (avg_confidence m) \<in> set (emitted (fst (run_inference_cycle e))) \<and>
         set (embed_colors (fst (run_inference_cycle e))) = {Red} \<and>
         set (emitted (fst (run_inference_cycle e))) =
           set (fst (snd (threshold_rules (int (num_empty m)) (stored_last e)))) \<union>
           {HealthWarning (avg_confidence m)}"
proof -
  let ?n = "int (num_empty m)" and ?l = "stored_last e" and ?a = "avg_confidence m"
  have al: "alert_logic ?n ?l ?a = (Red, fst (snd (threshold_rules ?n ?l)) @ [HealthWarning ?a], True)"
    using assms(2) by (rule alerts_low_health)
  have em: "set (emitted (fst (run_inference_cycle e))) = set (fst (snd (alert_logic ?n ?l ?a)))"
    using assms(1) by (rule cycle_emitted)
  have "embed_colors (fst (run_inference_cycle e)) = [Red, Red]"
    unfolding run_reaches[OF assms(1)] report_colors al by simp
  then have col: "set (embed_colors (fst (run_inference_cycle e))) = {Red}" by simp
  show ?thesis unfolding em al using col by simp
qed

theorem C8_witness:
  "map_option avg_confidence (cycle_metrics env_low_health) = Some (1 / 2) \<and>
   HealthWarning (1 / 2) \<in> set (emitted (fst (run_inference_cycle env_low_health))) \<and>
   YellowWarning \<in> set (emitted (fst (run_inference_cycle env_low_health))) \<and>
   set (embed_colors (fst (run_inference_cycle env_low_health))) = {Red}"
proof -
  obtain m where m: "cycle_metrics env_low_health = Some m"
    by (cases "cycle_metrics env_low_health") (simp_all, code_simp)
  have a: "map_option avg_confidence (cycle_metrics env_low_health) = Some (1 / 2)" by code_simp
  with m have lt: "avg_confidence m < 3 / 4" by simp
  have y: "YellowWarning \<in> set (emitted (fst (run_inference_cycle env_low_health)))" by code_simp
  from C8_health_warning[OF m lt] m a y show ?thesis by simp
qed

text \<open>
  C9. A detector that cannot be prepared is reported as a critical alert. When the
  weights file exists but loading it raises, the source only logs and returns: nothing
  reaches the notification sink. The sibling path (no weights file) does send the
  critical alert. In both the state file is left as it was.
\<close>

theorem C9_load_failure_not_reported:
  "run_inference_cycle env_load_fails = ([], state_file env_load_fails) \<and>
   discord_sends (fst (run_inference_cycle env_load_fails)) = 0 \<and>
   run_inference_cycle env_no_weights =
     ([Discord CriticalModelNotFound None None], state_file env_no_weights)"
  by (simp add: run_inference_cycle_def env_load_fails_def env_no_weights_def env_day_def
      discord_sends_def)

text \<open>
  C10. When the state file is missing or unparsable, the stored count read by the cycle
  is the default -1. A cycle that reaches the alert logic then emits the yellow warning
  if it counts four empty pots and the red alert if it counts five or more, and never
  emits the recovery event.
\<close>

theorem C10_missing_state_defaults:
  assumes "state_file e = Missing \<or> state_file e = Unparsable"
  shows "load_state (state_file e) = Map.empty \<and> stored_last e = - 1 \<and>
         (\<forall>m. cycle_metrics e = Some m \<longrightarrow>
            (num_empty m = 4 \<longrightarrow> YellowWarning \<in> set (emitted (fst (run_inference_cycle e)))) \<and>
            (5 \<le> num_empty m \<longrightarrow>
               RedAlert (int (num_empty m)) \<in> set (emitted (fst (run_inference_cycle e)))) \<and>
            Recovery \<notin> set (emitted (fst (run_inference_cycle e))))"
proof -
  from assms have ld: "load_state (state_file e) = Map.empty"
    by (auto simp add: load_state_def)
  then have l: "stored_last e = - 1"
    by (simp add: stored_last_def get_last_num_empty_def)
  show ?thesis
    using ld l by (auto simp add: cycle_emitted alerts_yellow alerts_red alerts_recovery)
qed

theorem C10_witness:
  "state_file env_yellow = Missing \<and> stored_last env_yellow = - 1 \<and>
   map_option num_empty (cycle_metrics env_yellow) = Some 4 \<and>
   YellowWarning \<in> set (emitted (fst (run_inference_cycle env_yellow))) \<and>
   Recovery \<notin> set (emitted (fst (run_inference_cycle env_yellow))) \<and>
   state_file env_red = Unparsable \<and> stored_last env_red = - 1 \<and>
   map_option num_empty (cycle_metrics env_red) = Some 5 \<and>
   RedAlert 5 \<in> set (emitted (fst (run_inference_cycle env_red))) \<and>
   Recovery \<notin> set (emitted (fst (run_inference_cycle env_red)))"
proof -
  have sy: "state_file env_yellow = Missing" by (simp add: env_yellow_def env_day_def)
  have sr: "state_file env_red = Unparsable" by (simp add: env_red_def env_day_def)
  obtain m where m: "cycle_metrics env_yellow = Some m"
    by (cases "cycle_metrics env_yellow") (simp_all, code_simp)
  have n: "map_option num_empty (cycle_metrics env_yellow) = Some 4" by code_simp
  obtain r where r: "cycle_metrics env_red = Some r"
    by (cases "cycle_metrics env_red") (simp_all, code_simp)
  have nr: "map_option num_empty (cycle_metrics env_red) = Some 5" by code_simp
  from C10_missing_state_defaults[of env_yellow] C10_missing_state_defaults[of env_red]
    sy sr m n r nr
  show ?thesis by simp
qed

end
